theory Spec2Isabelle
  imports Complex_Main "HOL-Library.AList" "HOL-Library.Sublist" "HOL-Library.Log_Nat"
begin

section \<open>Python values, exceptions and outcomes\<close>

text \<open>
  The script \<^verbatim>\<open>recursive-vt.py\<close> hashes every regular file below a directory, keeps one
  \<^verbatim>\<open>observedEntity\<close> per SHA-256 digest in a dictionary, asks VirusTotal once per digest and
  prints a verdict per entity. The model below follows the three classes of the script.

  Python is dynamically typed: the report of the remote service is whatever JSON document
  came back. \<open>pyval\<close> is the type of such documents. A dictionary is the list of its
  items in insertion order, looked up with \<open>map_of\<close> (a Python dictionary has no two items
  with the same key). JSON numbers with a fraction or an exponent are not represented.
\<close>

datatype pyval =
    PNone
  | PBool bool
  | PInt int
  | PStr string
  | PList "pyval list"
  | PDict "(string \<times> pyval) list"

datatype py_error =
    FileNotFoundError
  | IsADirectoryError
  | PermissionError
  | KeyError
  | TypeError
  | ZeroDivisionError
  | OverflowError

text \<open>
  A method that mutates its object either returns or raises; in both cases the object keeps
  the assignments made so far. \<open>Normal s\<close> is a return with the object in state \<open>s\<close>,
  \<open>Raise x s\<close> an exception \<open>x\<close> leaving the object in state \<open>s\<close>.
\<close>

datatype 's outcome = Normal (state: 's) | Raise (exn: py_error) (state: 's)

fun returns :: "'s outcome \<Rightarrow> bool" where
  "returns (Normal s) = True"
| "returns (Raise x s) = False"

text \<open>\<^verbatim>\<open>d[key]\<close> for a string key: only a dictionary can be subscripted by a string.\<close>

fun py_getitem :: "pyval \<Rightarrow> string \<Rightarrow> py_error + pyval" where
  "py_getitem (PDict items) key =
     (case map_of items key of None \<Rightarrow> Inl KeyError | Some v \<Rightarrow> Inr v)"
| "py_getitem v key = Inl TypeError"

text \<open>The integer a value counts as in arithmetic (\<^verbatim>\<open>bool\<close> is a subclass of \<^verbatim>\<open>int\<close>).\<close>

fun py_int :: "pyval \<Rightarrow> int option" where
  "py_int (PInt i) = Some i"
| "py_int (PBool b) = Some (if b then 1 else 0)"
| "py_int v = None"

text \<open>\<^verbatim>\<open>v == n\<close> for an integer literal \<open>n\<close>: never raises, false for every non-number.\<close>

definition py_eq_int :: "pyval \<Rightarrow> int \<Rightarrow> bool" where
  "py_eq_int v n = (py_int v = Some n)"

text \<open>
  A Python float is an IEEE 754 binary64 number. The model represents a finite float by the
  rational number it denotes. \<open>binary64 x\<close> is the float nearest to \<open>x\<close>: the significand
  has 53 bits, the exponent of the leading bit is at least -1022 (below that the spacing
  of the subnormal numbers applies), and a tie goes to the even significand.
\<close>

definition round_half_even :: "rat \<Rightarrow> int" where
  "round_half_even x =
     (let n = \<lfloor>x\<rfloor>; d = x - of_int n
      in if d < 1 / 2 then n else if 1 / 2 < d then n + 1 else if even n then n else n + 1)"

text \<open>The exponent of the leading bit of a positive number: the floor of its binary logarithm.\<close>

definition ilog2 :: "rat \<Rightarrow> int" where
  "ilog2 x =
     (case quotient_of x of (a, b) \<Rightarrow>
        let e = bitlen a - bitlen b in if 2 powi e \<le> x then e else e - 1)"

definition binary64 :: "rat \<Rightarrow> rat" where
  "binary64 x =
     (if x = 0 then 0
      else let e = max (ilog2 \<bar>x\<bar>) (- 1022); ulp = 2 powi (e - 52)
           in of_int (round_half_even (x / ulp)) * ulp)"

text \<open>
  \<^verbatim>\<open>a / b\<close>, true division of two integers: the quotient rounded to the nearest float;
  \<^verbatim>\<open>OverflowError\<close> when that is beyond the largest float.
\<close>

definition py_truediv :: "pyval \<Rightarrow> pyval \<Rightarrow> py_error + rat" where
  "py_truediv a b =
     (case (py_int a, py_int b) of
        (Some x, Some y) \<Rightarrow>
          if y = 0 then Inl ZeroDivisionError
          else if 2 ^ 1024 \<le> \<bar>binary64 (of_int x / of_int y)\<bar> then Inl OverflowError
          else Inr (binary64 (of_int x / of_int y))
      | _ \<Rightarrow> Inl TypeError)"

text \<open>
  \<^verbatim>\<open>json.loads(json.dumps(result))\<close> rebuilds the document from its serialisation; on a
  value of type \<open>pyval\<close> that is a structurally equal copy.
\<close>

definition json_loads_dumps :: "pyval \<Rightarrow> pyval" where
  "json_loads_dumps result = result"

section \<open>simpleFile: a file name and the digest of its content\<close>

text \<open>
  The file system maps a path to what is found there. Isabelle's \<open>char\<close> is an 8-bit byte,
  so a file's content is a \<open>char list\<close>. \<open>Unreadable\<close> is a regular file that
  \<^verbatim>\<open>open\<close> refuses.
\<close>

type_synonym bytes = "char list"

datatype fsnode = RegularFile bytes | Unreadable | Directory

type_synonym filesystem = "string \<Rightarrow> fsnode option"

definition isfile :: "filesystem \<Rightarrow> string \<Rightarrow> bool" where
  "isfile fs path =
     (case fs path of Some (RegularFile content) \<Rightarrow> True | Some Unreadable \<Rightarrow> True | _ \<Rightarrow> False)"

definition open_rb :: "filesystem \<Rightarrow> string \<Rightarrow> py_error + bytes" where
  "open_rb fs file_name =
     (case fs file_name of
        None \<Rightarrow> Inl FileNotFoundError
      | Some Directory \<Rightarrow> Inl IsADirectoryError
      | Some Unreadable \<Rightarrow> Inl PermissionError
      | Some (RegularFile content) \<Rightarrow> Inr content)"

text \<open>
  \<^verbatim>\<open>hashlib.sha256\<close> is a library: a fresh hash object, \<^verbatim>\<open>update\<close> and
  \<^verbatim>\<open>hexdigest\<close> are parameters of the model.
\<close>

record 'h hashlib =
  sha256_new :: 'h
  sha256_update :: "'h \<Rightarrow> bytes \<Rightarrow> 'h"
  hexdigest :: "'h \<Rightarrow> string"

text \<open>
  The loop \<^verbatim>\<open>for byte_block in iter(lambda: f.read(4096), b"")\<close>: read blocks of at most
  4096 bytes until a read returns nothing.
\<close>

function read_blocks :: "'h hashlib \<Rightarrow> 'h \<Rightarrow> bytes \<Rightarrow> 'h" where
  "read_blocks H sha256_hash content =
     (if take 4096 content = [] then sha256_hash
      else read_blocks H (sha256_update H sha256_hash (take 4096 content)) (drop 4096 content))"
  by pat_completeness auto
termination
  by (relation "measure (\<lambda>(H, h, content). length content)") auto

declare read_blocks.simps [simp del]

definition calculate_hash :: "'h hashlib \<Rightarrow> filesystem \<Rightarrow> string \<Rightarrow> py_error + string" where
  "calculate_hash H fs file_name =
     (case open_rb fs file_name of
        Inl x \<Rightarrow> Inl x
      | Inr content \<Rightarrow> Inr (hexdigest H (read_blocks H (sha256_new H) content)))"

record simpleFile =
  sf_file_name :: string
  sf_hash :: string

definition new_simpleFile :: "'h hashlib \<Rightarrow> filesystem \<Rightarrow> string \<Rightarrow> py_error + simpleFile" where
  "new_simpleFile H fs file_name =
     (case calculate_hash H fs file_name of
        Inl x \<Rightarrow> Inl x
      | Inr h \<Rightarrow> Inr \<lparr>sf_file_name = file_name, sf_hash = h\<rparr>)"

definition simpleFile_get_hash :: "simpleFile \<Rightarrow> string" where
  "simpleFile_get_hash self = sf_hash self"

definition simpleFile_get_file_name :: "simpleFile \<Rightarrow> string" where
  "simpleFile_get_file_name self = sf_file_name self"

section \<open>observedEntity: one digest, its files and the VirusTotal report\<close>

text \<open>
  \<open>scan_date\<close> is an attribute that exists only once a valid report was recorded, hence an
  option.
\<close>

record observedEntity =
  files :: "string list"
  hash :: string
  isMalicious :: bool
  vt_result :: pyval
  positives :: pyval
  total_scanners :: pyval
  scan_date :: "pyval option"

definition new_observedEntity :: "simpleFile \<Rightarrow> observedEntity" where
  "new_observedEntity file =
     \<lparr>files = [] @ [simpleFile_get_file_name file],
      hash = simpleFile_get_hash file,
      isMalicious = False,
      vt_result = PStr '''',
      positives = PInt 0,
      total_scanners = PInt 1,
      scan_date = None\<rparr>"

definition add_file_name :: "observedEntity \<Rightarrow> string \<Rightarrow> observedEntity" where
  "add_file_name self file_name = self\<lparr>files := files self @ [file_name]\<rparr>"

definition get_file_names :: "observedEntity \<Rightarrow> string list" where
  "get_file_names self = files self"

definition get_hash :: "observedEntity \<Rightarrow> string" where
  "get_hash self = hash self"

text \<open>
  \<^verbatim>\<open>add_virustotal_result\<close> stores the report first; each later subscript can raise, and
  the assignments of the valid-report branch happen one after the other.
\<close>

definition add_virustotal_result :: "observedEntity \<Rightarrow> pyval \<Rightarrow> observedEntity outcome" where
  "add_virustotal_result self result =
     (let self1 = self\<lparr>vt_result := result\<rparr>;
          json_data = json_loads_dumps result
      in case py_getitem json_data ''results'' of
           Inl x \<Rightarrow> Raise x self1
         | Inr results \<Rightarrow>
             (case py_getitem results ''response_code'' of
                Inl x \<Rightarrow> Raise x self1
              | Inr response_code \<Rightarrow>
                  if py_eq_int response_code 1 then
                    (case py_getitem results ''total'' of
                       Inl x \<Rightarrow> Raise x self1
                     | Inr total_v \<Rightarrow>
                         let self2 = self1\<lparr>total_scanners := total_v\<rparr>
                         in (case py_getitem results ''positives'' of
                               Inl x \<Rightarrow> Raise x self2
                             | Inr positives_v \<Rightarrow>
                                 let self3 = self2\<lparr>positives := positives_v\<rparr>
                                 in (case py_getitem results ''scan_date'' of
                                       Inl x \<Rightarrow> Raise x self3
                                     | Inr scan_date_v \<Rightarrow> Normal (self3\<lparr>scan_date := Some scan_date_v\<rparr>))))
                  else Normal self1))"

definition get_virustotal_result :: "observedEntity \<Rightarrow> pyval" where
  "get_virustotal_result self = vt_result self"

definition count_total_scanners :: "observedEntity \<Rightarrow> pyval" where
  "count_total_scanners self = total_scanners self"

definition count_alerting_scanners :: "observedEntity \<Rightarrow> pyval" where
  "count_alerting_scanners self = positives self"

text \<open>
  \<^verbatim>\<open>is_malicious\<close> prints the ratio and then compares it with the float literal
  \<^verbatim>\<open>0.1\<close>, which is \<open>binary64 (1 / 10)\<close>; the printing computes the same quotient, so it
  raises exactly when the comparison would.
\<close>

definition is_malicious :: "observedEntity \<Rightarrow> py_error + bool" where
  "is_malicious self =
     (case py_truediv (count_alerting_scanners self) (count_total_scanners self) of
        Inl x \<Rightarrow> Inl x
      | Inr ratio \<Rightarrow> Inr (ratio \<ge> binary64 (1 / 10)))"

section \<open>entityHandler: the registry of observed entities\<close>

text \<open>
  \<^verbatim>\<open>hash_dict\<close> is a Python dictionary; its items are kept in insertion order, which is the
  order \<^verbatim>\<open>get_entities\<close> iterates in. \<open>AList.update\<close> replaces the value of a key in place
  and appends an unseen key at the end, as assigning into a Python dictionary does. In the
  duplicate branch of \<^verbatim>\<open>add_file\<close> the script mutates the entity object that the dictionary
  refers to; in the model the item of that key is rewritten at its position.
\<close>

record entityHandler =
  hash_dict :: "(string \<times> observedEntity) list"

definition new_entityHandler :: entityHandler where
  "new_entityHandler = \<lparr>hash_dict = []\<rparr>"

definition add_file :: "'h hashlib \<Rightarrow> filesystem \<Rightarrow> entityHandler \<Rightarrow> string \<Rightarrow> entityHandler outcome" where
  "add_file H fs self file =
     (case new_simpleFile H fs file of
        Inl x \<Rightarrow> Raise x self
      | Inr new_file \<Rightarrow>
          (case map_of (hash_dict self) (simpleFile_get_hash new_file) of
             Some existing_duplicates \<Rightarrow>
               Normal (self\<lparr>hash_dict :=
                 AList.update (simpleFile_get_hash new_file)
                   (add_file_name existing_duplicates (simpleFile_get_file_name new_file))
                   (hash_dict self)\<rparr>)
           | None \<Rightarrow>
               Normal (self\<lparr>hash_dict :=
                 AList.update (simpleFile_get_hash new_file) (new_observedEntity new_file)
                   (hash_dict self)\<rparr>)))"

definition get_entities :: "entityHandler \<Rightarrow> (string \<times> observedEntity) list" where
  "get_entities self = hash_dict self"

definition count_entities :: "entityHandler \<Rightarrow> nat" where
  "count_entities self = length (hash_dict self)"

text \<open>
  What the polling phase does to the outside world, in order: a report requested from
  VirusTotal for a digest, and a call of \<^verbatim>\<open>time.sleep\<close> with a number of seconds.
\<close>

datatype event = Query string | Sleep nat

text \<open>
  The \<^verbatim>\<open>for\<close> loop of \<^verbatim>\<open>retrieve_virustotal_results\<close> over the items of the dictionary.
  \<open>get_file_report\<close> stands for \<^verbatim>\<open>vt.get_file_report\<close>, the remote service. An exception
  of \<^verbatim>\<open>add_virustotal_result\<close> ends the loop: the query was sent, the sleep is not reached.
\<close>

fun poll_entities ::
  "(string \<Rightarrow> pyval) \<Rightarrow> nat \<Rightarrow> (string \<times> observedEntity) list \<Rightarrow>
     (string \<times> observedEntity) list outcome \<times> event list" where
  "poll_entities get_file_report waiting_time [] = (Normal [], [])"
| "poll_entities get_file_report waiting_time ((h, observed_entity) # rest) =
     (case add_virustotal_result observed_entity (get_file_report h) of
        Raise x e \<Rightarrow> (Raise x ((h, e) # rest), [Query h])
      | Normal e \<Rightarrow>
          (case poll_entities get_file_report waiting_time rest of
             (r, trace) \<Rightarrow>
               (map_outcome ((#) (h, e)) r, Query h # Sleep waiting_time # trace)))"

text \<open>
  The waiting time is computed from the global \<^verbatim>\<open>entity_handler\<close>, the loop runs over
  \<^verbatim>\<open>self\<close>; the script calls the method on that global object, so both are the same
  registry there.
\<close>

definition retrieve_virustotal_results ::
  "(string \<Rightarrow> pyval) \<Rightarrow> entityHandler \<Rightarrow> entityHandler \<Rightarrow> entityHandler outcome \<times> event list" where
  "retrieve_virustotal_results get_file_report entity_handler self =
     (let waiting_time = (if count_entities entity_handler \<le> 4 then 0 else 15)
      in case poll_entities get_file_report waiting_time (get_entities self) of
           (r, trace) \<Rightarrow> (map_outcome (\<lambda>d. self\<lparr>hash_dict := d\<rparr>) r, trace))"

section \<open>The script: scanning and reporting\<close>

text \<open>
  The loop over \<^verbatim>\<open>glob.iglob\<close>: \<open>paths\<close> is what the traversal yields, directories
  included; only regular files are registered, and an exception ends the loop.
\<close>

fun scan_files ::
  "'h hashlib \<Rightarrow> filesystem \<Rightarrow> entityHandler \<Rightarrow> string list \<Rightarrow> entityHandler outcome" where
  "scan_files H fs entity_handler [] = Normal entity_handler"
| "scan_files H fs entity_handler (file # paths) =
     (if isfile fs file then
        (case add_file H fs entity_handler file of
           Raise x h \<Rightarrow> Raise x h
         | Normal h \<Rightarrow> scan_files H fs h paths)
      else scan_files H fs entity_handler paths)"

text \<open>
  The lines printed for one entity in the final loop of the script (the ratio that
  \<^verbatim>\<open>is_malicious\<close> prints on the way is left out).
\<close>

datatype line =
    PotentiallyMalicious string "string list"
  | IdentifiedAsMalicious pyval
  | NotRecognized "string list"
  | VTResultIs pyval

definition report_entity :: "string \<times> observedEntity \<Rightarrow> py_error + line list" where
  "report_entity item =
     (case item of (h, observed_entity) \<Rightarrow>
        (case is_malicious observed_entity of
           Inl x \<Rightarrow> Inl x
         | Inr True \<Rightarrow>
             Inr [PotentiallyMalicious h (get_file_names observed_entity),
                  IdentifiedAsMalicious (count_alerting_scanners observed_entity),
                  VTResultIs (get_virustotal_result observed_entity)]
         | Inr False \<Rightarrow>
             Inr [NotRecognized (get_file_names observed_entity),
                  VTResultIs (get_virustotal_result observed_entity)]))"

section \<open>Notions used in the properties\<close>

text \<open>The digest \<^verbatim>\<open>calculate_hash\<close> produces from the bytes of a file.\<close>

definition hash_bytes :: "'h hashlib \<Rightarrow> bytes \<Rightarrow> string" where
  "hash_bytes H content = hexdigest H (read_blocks H (sha256_new H) content)"

text \<open>
  The expression \<^verbatim>\<open>json_data['results']['response_code']\<close> that
  \<^verbatim>\<open>add_virustotal_result\<close> tests.
\<close>

definition response_status :: "pyval \<Rightarrow> py_error + pyval" where
  "response_status result =
     (case py_getitem (json_loads_dumps result) ''results'' of
        Inl x \<Rightarrow> Inl x
      | Inr results \<Rightarrow> py_getitem results ''response_code'')"

text \<open>
  The registry invariant: keys are distinct, and every entity carries the digest it is
  filed under, a non-empty list of file names, and only names of files with that digest.
\<close>

definition entity_ok :: "'h hashlib \<Rightarrow> filesystem \<Rightarrow> string \<times> observedEntity \<Rightarrow> bool" where
  "entity_ok H fs item =
     (case item of (k, e) \<Rightarrow>
        hash e = k \<and> files e \<noteq> [] \<and> list_all (\<lambda>p. calculate_hash H fs p = Inr k) (files e))"

definition registry_inv :: "'h hashlib \<Rightarrow> filesystem \<Rightarrow> entityHandler \<Rightarrow> bool" where
  "registry_inv H fs h =
     (distinct (map fst (hash_dict h)) \<and> list_all (entity_ok H fs) (hash_dict h))"

text \<open>
  \<open>grows h h'\<close>: every entity of \<open>h\<close> is still in \<open>h'\<close> under its key, with the same digest
  and a file list that extends the old one at the end; the keys of \<open>h\<close> come first in
  \<open>h'\<close>, in the same order.
\<close>

definition kept :: "(string \<times> observedEntity) list \<Rightarrow> string \<times> observedEntity \<Rightarrow> bool" where
  "kept d' item =
     (case item of (k, e) \<Rightarrow>
        (case map_of d' k of
           None \<Rightarrow> False
         | Some e' \<Rightarrow> hash e' = hash e \<and> prefix (files e) (files e')))"

definition grows :: "entityHandler \<Rightarrow> entityHandler \<Rightarrow> bool" where
  "grows h h' =
     (prefix (map fst (hash_dict h)) (map fst (hash_dict h')) \<and>
      list_all (kept (hash_dict h')) (hash_dict h))"

text \<open>The file names filed under a digest (none when the digest is not registered).\<close>

definition files_of :: "entityHandler \<Rightarrow> string \<Rightarrow> string list" where
  "files_of h k = (case map_of (hash_dict h) k of None \<Rightarrow> [] | Some e \<Rightarrow> files e)"

text \<open>The entity \<^verbatim>\<open>add_file\<close> leaves under digest \<open>k\<close> after seeing the file \<open>p\<close>.\<close>

definition registered_entity :: "entityHandler \<Rightarrow> string \<Rightarrow> string \<Rightarrow> observedEntity" where
  "registered_entity h k p =
     (case map_of (hash_dict h) k of
        Some e \<Rightarrow> add_file_name e p
      | None \<Rightarrow> new_observedEntity \<lparr>sf_file_name = p, sf_hash = k\<rparr>)"

text \<open>The digests queried and the pauses made, read off a trace.\<close>

fun queries :: "event list \<Rightarrow> string list" where
  "queries [] = []"
| "queries (Query h # trace) = h # queries trace"
| "queries (Sleep n # trace) = queries trace"

fun sleeps :: "event list \<Rightarrow> nat list" where
  "sleeps [] = []"
| "sleeps (Query h # trace) = sleeps trace"
| "sleeps (Sleep n # trace) = n # sleeps trace"

text \<open>The contents of the regular files among the paths, one per path, in order.\<close>

fun contents :: "filesystem \<Rightarrow> string list \<Rightarrow> bytes list" where
  "contents fs [] = []"
| "contents fs (p # paths) =
     (case fs p of
        Some (RegularFile c) \<Rightarrow> c # contents fs paths
      | _ \<Rightarrow> contents fs paths)"

text \<open>
  Two dictionary items for the same key whose entities agree on digest and file names.
\<close>

definition same_entity :: "string \<times> observedEntity \<Rightarrow> string \<times> observedEntity \<Rightarrow> bool" where
  "same_entity item item' =
     (fst item' = fst item \<and> files (snd item') = files (snd item) \<and>
      hash (snd item') = hash (snd item))"

text \<open>The waiting time \<^verbatim>\<open>retrieve_virustotal_results\<close> chooses.\<close>

definition waiting_time_of :: "entityHandler \<Rightarrow> nat" where
  "waiting_time_of entity_handler = (if count_entities entity_handler \<le> 4 then 0 else 15)"

subsection \<open>Sample inputs\<close>

definition sample_file :: simpleFile where
  "sample_file = \<lparr>sf_file_name = ''samples/a.bin'', sf_hash = ''06f9''\<rparr>"

text \<open>A report for a known digest, flagged by 7 of 70 engines.\<close>

definition known_report :: pyval where
  "known_report =
     PDict [(''results'', PDict [(''response_code'', PInt 1), (''total'', PInt 70),
              (''positives'', PInt 7), (''scan_date'', PStr ''2019-11-02 10:21:36'')]),
            (''response_code'', PInt 200)]"

text \<open>A valid report in which no engine was consulted.\<close>

definition zero_total_report :: pyval where
  "zero_total_report =
     PDict [(''results'', PDict [(''response_code'', PInt 1), (''total'', PInt 0),
              (''positives'', PInt 0), (''scan_date'', PStr ''2019-11-02 10:21:36'')]),
            (''response_code'', PInt 200)]"

text \<open>The answer for a digest VirusTotal has never seen.\<close>

definition unknown_report :: pyval where
  "unknown_report =
     PDict [(''results'', PDict [(''response_code'', PInt 0),
              (''verbose_msg'', PStr ''The requested resource is not among the finished, queued or pending scans'')]),
            (''response_code'', PInt 200)]"

text \<open>What the client library returns when the request itself failed.\<close>

definition error_report :: pyval where
  "error_report = PDict [(''error'', PStr ''connection refused'')]"

text \<open>
  A stand-in for the hash library in the examples: it collects the bytes it is fed and
  gives them back as the digest.
\<close>

definition toy_hashlib :: "bytes hashlib" where
  "toy_hashlib =
     \<lparr>sha256_new = [], sha256_update = (\<lambda>h byte_block. h @ byte_block), hexdigest = (\<lambda>h. h)\<rparr>"

text \<open>
  A directory tree with six regular files, two of them with the same content, and the paths
  a traversal of it yields.
\<close>

definition sample_fs :: filesystem where
  "sample_fs = map_of
     [(''top/a'', RegularFile ''MZ1''),
      (''top/sub'', Directory),
      (''top/sub/b'', RegularFile ''MZ1''),
      (''top/c'', RegularFile ''hello''),
      (''top/d'', RegularFile ''4''),
      (''top/e'', RegularFile ''5''),
      (''top/f'', RegularFile ''6'')]"

definition sample_paths :: "string list" where
  "sample_paths = [''top/a'', ''top/sub'', ''top/sub/b'', ''top/c'', ''top/d'', ''top/e'', ''top/f'']"

definition sample_registry :: entityHandler where
  "sample_registry = state (scan_files toy_hashlib sample_fs new_entityHandler sample_paths)"

definition fresh_entity :: "string \<Rightarrow> string \<Rightarrow> observedEntity" where
  "fresh_entity p k = new_observedEntity \<lparr>sf_file_name = p, sf_hash = k\<rparr>"

definition one_file_registry :: entityHandler where
  "one_file_registry = \<lparr>hash_dict = [(''MZ1'', fresh_entity ''top/a'' ''MZ1'')]\<rparr>"

text \<open>A remote service that knows none of the digests.\<close>

definition unknown_to_virustotal :: "string \<Rightarrow> pyval" where
  "unknown_to_virustotal h = unknown_report"

section \<open>Properties of the floating-point model\<close>

subsection \<open>Rounding to an integer\<close>




subsection \<open>The leading bit\<close>

lemma of_int_bitlen_bounds:
  assumes "0 < a"
  shows "(2::rat) powi (bitlen a - 1) \<le> of_int a" and "of_int a < (2::rat) powi (bitlen a)"
proof -
  from bitlen_bounds [OF assms]
  have lo: "2 ^ nat (bitlen a - 1) \<le> a" and hi: "a < 2 ^ nat (bitlen a)" by simp_all
  from assms have pos: "1 \<le> bitlen a"
    by (metis bitlen_eq_zero_iff bitlen_nonneg not_le order_le_less zle_add1_eq_le zero_less_one add_0)
  from lo have "(of_int (2 ^ nat (bitlen a - 1)) :: rat) \<le> of_int a"
    by (simp only: of_int_le_iff)
  with pos show "(2::rat) powi (bitlen a - 1) \<le> of_int a"
    by (simp add: power_int_def)
  from hi have "(of_int a :: rat) < of_int (2 ^ nat (bitlen a))"
    by (simp only: of_int_less_iff)
  with pos show "of_int a < (2::rat) powi (bitlen a)"
    by (simp add: power_int_def)
qed

lemma ilog2_bounds:
  assumes "0 < x"
  shows "2 powi (ilog2 x) \<le> x \<and> x < 2 powi (ilog2 x + 1)"
proof -
  obtain a b where q: "quotient_of x = (a, b)" by (cases "quotient_of x")
  then have b: "0 < b" by (rule quotient_of_denom_pos)
  from q have x: "x = of_int a / of_int b" by (rule quotient_of_div)
  with assms b have a: "0 < a" by (simp add: zero_less_divide_iff)
  define e where "e = bitlen a - bitlen b"
  have "x < 2 powi (bitlen a) / 2 powi (bitlen b - 1)"
    unfolding x using of_int_bitlen_bounds(2) [OF a] of_int_bitlen_bounds(1) [OF b] a b
    by (intro frac_less) simp_all
  also have "\<dots> = 2 powi (e + 1)"
    by (simp add: e_def power_int_diff [symmetric] algebra_simps)
  finally have hi: "x < 2 powi (e + 1)" .
  have "(2::rat) powi (bitlen a - 1) / 2 powi (bitlen b) < x"
    unfolding x using of_int_bitlen_bounds(1) [OF a] of_int_bitlen_bounds(2) [OF b] a b
    by (intro frac_less2) simp_all
  moreover have "(2::rat) powi (bitlen a - 1) / 2 powi (bitlen b) = 2 powi (e - 1)"
    by (simp add: e_def power_int_diff [symmetric] algebra_simps)
  ultimately have lo: "2 powi (e - 1) \<le> x" by simp
  show ?thesis
  proof (cases "2 powi e \<le> x")
    case True
    with q hi show ?thesis by (simp add: ilog2_def e_def)
  next
    case False
    with q lo show ?thesis by (simp add: ilog2_def e_def)
  qed
qed

subsection \<open>Where the nearest float lies\<close>

lemma binary64_unfold:
  "x \<noteq> 0 \<Longrightarrow>
   binary64 x =
     of_int (round_half_even (x / 2 powi (max (ilog2 \<bar>x\<bar>) (- 1022) - 52))) *
       2 powi (max (ilog2 \<bar>x\<bar>) (- 1022) - 52)"
  by (simp add: binary64_def Let_def)





lemma ilog2_unique:
  assumes "0 < x" and "2 powi e \<le> x" and "x < 2 powi (e + 1)"
  shows "ilog2 x = e"
proof (rule ccontr)
  assume ne: "ilog2 x \<noteq> e"
  from assms(1) have lo: "2 powi (ilog2 x) \<le> x" and hi: "x < 2 powi (ilog2 x + 1)"
    by (simp_all add: ilog2_bounds)
  show False
  proof (cases "ilog2 x < e")
    case True
    then have "(2::rat) powi (ilog2 x + 1) \<le> 2 powi e"
      by (intro power_int_increasing) simp_all
    with hi assms(2) show False by simp
  next
    case False
    with ne have "(2::rat) powi (e + 1) \<le> 2 powi (ilog2 x)"
      by (intro power_int_increasing) simp_all
    with lo assms(3) show False by simp
  qed
qed

lemma ilog2_tenth: "ilog2 (1 / 10) = - 4"
  by (rule ilog2_unique) simp_all

subsection \<open>The literal 0.1 and the quotient of two integers\<close>

lemma round_tenth: "round_half_even (1 / 10 / 2 powi (- 56)) = 7205759403792794"
proof -
  have y: "1 / 10 / 2 powi (- 56) = (72057594037927936 / 10 :: rat)"
    by (simp add: power_int_minus)
  have fl: "\<lfloor>72057594037927936 / 10 :: rat\<rfloor> = 7205759403792793"
    by (rule floor_unique) simp_all
  show ?thesis
    unfolding y round_half_even_def Let_def fl by simp
qed

lemma binary64_tenth: "binary64 (1 / 10) = 7205759403792794 * 2 powi (- 56)"
proof -
  have "binary64 (1 / 10) =
      of_int (round_half_even (1 / 10 / 2 powi (max (ilog2 \<bar>1 / 10\<bar>) (- 1022) - 52))) *
        2 powi (max (ilog2 \<bar>1 / 10\<bar>) (- 1022) - 52)"
    by (rule binary64_unfold) simp
  also have "max (ilog2 \<bar>1 / 10 :: rat\<bar>) (- 1022) - 52 = - 56"
    by (simp add: ilog2_tenth)
  finally show ?thesis by (simp only: round_tenth)
qed


lemma binary64_tenth_bounds: "1 / 16 < binary64 (1 / 10)" "binary64 (1 / 10) < 1 / 8" "0 < binary64 (1 / 10)"
  by (simp_all add: binary64_tenth power_int_minus)



lemma binary64_zero: "binary64 0 = 0"
  by (simp add: binary64_def)

lemma is_malicious_int:
  assumes "py_int (positives self) = Some p" and "py_int (total_scanners self) = Some t"
  shows "is_malicious self =
     (if t = 0 then Inl ZeroDivisionError
      else if 2 ^ 1024 \<le> \<bar>binary64 (of_int p / of_int t)\<bar> then Inl OverflowError
      else Inr (binary64 (1 / 10) \<le> binary64 (of_int p / of_int t)))"
  using assms
  by (simp add: is_malicious_def py_truediv_def count_alerting_scanners_def
      count_total_scanners_def)

lemma is_malicious_defaults:
  assumes "positives self = PInt 0" and "total_scanners self = PInt 1"
  shows "is_malicious self = Inr False"
proof -
  from assms have "py_int (positives self) = Some 0" "py_int (total_scanners self) = Some 1"
    by simp_all
  then have "is_malicious self = Inr (binary64 (1 / 10) \<le> binary64 0)"
    by (simp add: is_malicious_int binary64_zero)
  with binary64_tenth_bounds(3) show ?thesis
    by (simp add: binary64_zero)
qed

lemma is_malicious_zero_total:
  assumes "py_int (positives self) = Some p" and "total_scanners self = PInt 0"
  shows "is_malicious self = Inl ZeroDivisionError"
  using assms by (simp add: is_malicious_int)

section \<open>Properties of observedEntity\<close>

lemmas entity_eval =
  add_virustotal_result_def json_loads_dumps_def py_eq_int_def new_observedEntity_def
  sample_file_def simpleFile_get_file_name_def simpleFile_get_hash_def

text \<open>
  C9. Whatever report is handed to \<^verbatim>\<open>add_virustotal_result\<close>, valid or not, and whether
  the method returns or raises, \<^verbatim>\<open>get_virustotal_result\<close> afterwards gives back exactly that
  report.
\<close>

theorem raw_result_roundtrip:
  "get_virustotal_result (state (add_virustotal_result self result)) = result"
  by (simp add: add_virustotal_result_def get_virustotal_result_def Let_def split: sum.splits)

theorem raw_result_roundtrip_witness:
  "get_virustotal_result (state (add_virustotal_result (new_observedEntity sample_file) known_report)) = known_report \<and>
   get_virustotal_result (state (add_virustotal_result (new_observedEntity sample_file) unknown_report)) = unknown_report \<and>
   get_virustotal_result (state (add_virustotal_result (new_observedEntity sample_file) error_report)) = error_report"
  using raw_result_roundtrip [of "new_observedEntity sample_file" known_report]
    raw_result_roundtrip [of "new_observedEntity sample_file" unknown_report]
    raw_result_roundtrip [of "new_observedEntity sample_file" error_report]
  by simp



text \<open>
  C3. A fresh entity is judged without an error (0 / 1 is below the threshold). A valid
  report whose total is 0 is copied into the entity as it is, and \<^verbatim>\<open>is_malicious\<close> then
  raises \<^verbatim>\<open>ZeroDivisionError\<close>: the default of 1 guards only the entity that never got a
  valid report.
\<close>

theorem zero_total_divides_by_zero:
  "is_malicious (new_observedEntity sample_file) = Inr False \<and>
   add_virustotal_result (new_observedEntity sample_file) zero_total_report =
     Normal ((new_observedEntity sample_file)
       \<lparr>vt_result := zero_total_report, positives := PInt 0, total_scanners := PInt 0,
        scan_date := Some (PStr ''2019-11-02 10:21:36'')\<rparr>) \<and>
   is_malicious (state (add_virustotal_result (new_observedEntity sample_file) zero_total_report)) =
     Inl ZeroDivisionError"
  by (simp add: entity_eval zero_total_report_def is_malicious_defaults is_malicious_zero_total)

text \<open>
  C4. For a report that carries \<^verbatim>\<open>results\<close> with a \<^verbatim>\<open>response_code\<close>: when the code equals 1
  and the report has \<^verbatim>\<open>total\<close>, \<^verbatim>\<open>positives\<close> and \<^verbatim>\<open>scan_date\<close>, these three are stored in the
  entity; when the code is anything else, only the raw report is stored, so an entity that
  has its initial counts keeps total 1 and positives 0, \<^verbatim>\<open>is_malicious\<close> is false and the
  entity is printed as not recognized as malicious.
\<close>

theorem add_virustotal_result_by_status:
  assumes "py_getitem result ''results'' = Inr results"
    and "py_getitem results ''response_code'' = Inr response_code"
  shows "(py_eq_int response_code 1 \<and> py_getitem results ''total'' = Inr t \<and>
          py_getitem results ''positives'' = Inr p \<and> py_getitem results ''scan_date'' = Inr d \<longrightarrow>
            add_virustotal_result self result =
              Normal (self\<lparr>vt_result := result, total_scanners := t, positives := p,
                           scan_date := Some d\<rparr>)) \<and>
         (\<not> py_eq_int response_code 1 \<longrightarrow>
            add_virustotal_result self result = Normal (self\<lparr>vt_result := result\<rparr>) \<and>
            total_scanners (state (add_virustotal_result (new_observedEntity file) result)) = PInt 1 \<and>
            positives (state (add_virustotal_result (new_observedEntity file) result)) = PInt 0 \<and>
            is_malicious (state (add_virustotal_result (new_observedEntity file) result)) = Inr False \<and>
            report_entity (h, state (add_virustotal_result (new_observedEntity file) result)) =
              Inr [NotRecognized [sf_file_name file], VTResultIs result])"
  using assms
  by (simp add: add_virustotal_result_def json_loads_dumps_def new_observedEntity_def
      is_malicious_defaults report_entity_def get_file_names_def get_virustotal_result_def
      simpleFile_get_file_name_def)

theorem add_virustotal_result_by_status_witness:
  "py_getitem known_report ''results'' =
     Inr (PDict [(''response_code'', PInt 1), (''total'', PInt 70), (''positives'', PInt 7),
                 (''scan_date'', PStr ''2019-11-02 10:21:36'')]) \<and>
   py_eq_int (PInt 1) 1 \<and>
   add_virustotal_result (new_observedEntity sample_file) known_report =
     Normal ((new_observedEntity sample_file)
       \<lparr>vt_result := known_report, total_scanners := PInt 70, positives := PInt 7,
        scan_date := Some (PStr ''2019-11-02 10:21:36'')\<rparr>) \<and>
   py_getitem unknown_report ''results'' =
     Inr (PDict [(''response_code'', PInt 0),
                 (''verbose_msg'', PStr ''The requested resource is not among the finished, queued or pending scans'')]) \<and>
   \<not> py_eq_int (PInt 0) 1 \<and>
   add_virustotal_result (new_observedEntity sample_file) unknown_report =
     Normal ((new_observedEntity sample_file)\<lparr>vt_result := unknown_report\<rparr>) \<and>
   is_malicious (state (add_virustotal_result (new_observedEntity sample_file) unknown_report)) =
     Inr False \<and>
   report_entity (''06f9'', state (add_virustotal_result (new_observedEntity sample_file) unknown_report)) =
     Inr [NotRecognized [sf_file_name sample_file], VTResultIs unknown_report]"
proof -
  let ?known = "PDict [(''response_code'', PInt 1), (''total'', PInt 70), (''positives'', PInt 7),
                 (''scan_date'', PStr ''2019-11-02 10:21:36'')]"
  let ?unknown = "PDict [(''response_code'', PInt 0),
                 (''verbose_msg'', PStr ''The requested resource is not among the finished, queued or pending scans'')]"
  have k1: "py_getitem known_report ''results'' = Inr ?known"
    by (simp add: known_report_def)
  have k2: "py_getitem ?known ''response_code'' = Inr (PInt 1)"
    by simp
  have k3: "py_eq_int (PInt 1) 1 \<and> py_getitem ?known ''total'' = Inr (PInt 70) \<and>
      py_getitem ?known ''positives'' = Inr (PInt 7) \<and>
      py_getitem ?known ''scan_date'' = Inr (PStr ''2019-11-02 10:21:36'')"
    by (simp add: py_eq_int_def)
  have u1: "py_getitem unknown_report ''results'' = Inr ?unknown"
    by (simp add: unknown_report_def)
  have u2: "py_getitem ?unknown ''response_code'' = Inr (PInt 0)"
    by simp
  have u3: "\<not> py_eq_int (PInt 0) 1"
    by (simp add: py_eq_int_def)
  note known = add_virustotal_result_by_status [OF k1 k2, of "PInt 70" "PInt 7"
      "PStr ''2019-11-02 10:21:36''" "new_observedEntity sample_file"]
  note unknown = add_virustotal_result_by_status [OF u1 u2, of _ _ _ "new_observedEntity sample_file"
      sample_file "''06f9''"]
  from known k3 have a: "add_virustotal_result (new_observedEntity sample_file) known_report =
     Normal ((new_observedEntity sample_file)
       \<lparr>vt_result := known_report, total_scanners := PInt 70, positives := PInt 7,
        scan_date := Some (PStr ''2019-11-02 10:21:36'')\<rparr>)"
    by blast
  from unknown u3 have b: "add_virustotal_result (new_observedEntity sample_file) unknown_report =
     Normal ((new_observedEntity sample_file)\<lparr>vt_result := unknown_report\<rparr>) \<and>
   is_malicious (state (add_virustotal_result (new_observedEntity sample_file) unknown_report)) =
     Inr False \<and>
   report_entity (''06f9'', state (add_virustotal_result (new_observedEntity sample_file) unknown_report)) =
     Inr [NotRecognized [sf_file_name sample_file], VTResultIs unknown_report]"
    by blast
  from k1 k3 a u1 u3 b show ?thesis by blast
qed

text \<open>
  C5, as the script behaves. When \<^verbatim>\<open>json_data['results']['response_code']\<close> cannot be
  evaluated (the report has no \<^verbatim>\<open>results\<close>, its \<^verbatim>\<open>results\<close> have no \<^verbatim>\<open>response_code\<close>, or one
  of the two is not a dictionary), \<^verbatim>\<open>add_virustotal_result\<close> raises that \<^verbatim>\<open>KeyError\<close> or
  \<^verbatim>\<open>TypeError\<close>, having stored only the raw report. When the expression has a value other
  than 1, the method returns, and again only the raw report is stored: the counts stay as
  they were and nothing marks the entity as unknown.
\<close>

theorem add_virustotal_result_malformed:
  "(response_status result = Inl x \<longrightarrow>
      add_virustotal_result self result = Raise x (self\<lparr>vt_result := result\<rparr>) \<and>
      (x = KeyError \<or> x = TypeError)) \<and>
   (response_status result = Inr response_code \<and> \<not> py_eq_int response_code 1 \<longrightarrow>
      add_virustotal_result self result = Normal (self\<lparr>vt_result := result\<rparr>))"
proof -
  have err: "x = KeyError \<or> x = TypeError" if "py_getitem v key = Inl x" for v key
    using that by (cases v) (auto split: option.splits)
  show ?thesis
    by (auto simp add: response_status_def add_virustotal_result_def Let_def
        split: sum.splits dest: err)
qed

theorem add_virustotal_result_malformed_witness:
  "response_status error_report = Inl KeyError \<and>
   add_virustotal_result (new_observedEntity sample_file) error_report =
     Raise KeyError ((new_observedEntity sample_file)\<lparr>vt_result := error_report\<rparr>) \<and>
   response_status unknown_report = Inr (PInt 0) \<and>
   \<not> py_eq_int (PInt 0) 1 \<and>
   add_virustotal_result (new_observedEntity sample_file) unknown_report =
     Normal ((new_observedEntity sample_file)\<lparr>vt_result := unknown_report\<rparr>)"
proof -
  have e: "response_status error_report = Inl KeyError"
    by (simp add: response_status_def json_loads_dumps_def error_report_def)
  have u: "response_status unknown_report = Inr (PInt 0)"
    by (simp add: response_status_def json_loads_dumps_def unknown_report_def)
  have n: "\<not> py_eq_int (PInt 0) 1"
    by (simp add: py_eq_int_def)
  from add_virustotal_result_malformed [of error_report KeyError "new_observedEntity sample_file"] e
  have a: "add_virustotal_result (new_observedEntity sample_file) error_report =
     Raise KeyError ((new_observedEntity sample_file)\<lparr>vt_result := error_report\<rparr>)"
    by blast
  from add_virustotal_result_malformed [of unknown_report _ "new_observedEntity sample_file" "PInt 0"] u n
  have b: "add_virustotal_result (new_observedEntity sample_file) unknown_report =
     Normal ((new_observedEntity sample_file)\<lparr>vt_result := unknown_report\<rparr>)"
    by blast
  from e a u n b show ?thesis by blast
qed

text \<open>
  The claim C5 as written fails for the answer the client library gives when the request
  failed: the report has no \<^verbatim>\<open>results\<close>, and the method raises \<^verbatim>\<open>KeyError\<close>.
\<close>

theorem add_virustotal_result_malformed_counterexample:
  "\<not> returns (add_virustotal_result (new_observedEntity sample_file) error_report) \<and>
   exn (add_virustotal_result (new_observedEntity sample_file) error_report) = KeyError"
  by (simp add: entity_eval error_report_def)

section \<open>Properties of entityHandler\<close>

subsection \<open>One call of \<^verbatim>\<open>add_file\<close>\<close>

lemma add_file_Raise:
  "calculate_hash H fs p = Inl x \<Longrightarrow> add_file H fs h p = Raise x h"
  by (simp add: add_file_def new_simpleFile_def)

lemma add_file_Normal:
  "calculate_hash H fs p = Inr k \<Longrightarrow>
   add_file H fs h p = Normal (h\<lparr>hash_dict := AList.update k (registered_entity h k p) (hash_dict h)\<rparr>)"
  by (simp add: add_file_def new_simpleFile_def registered_entity_def simpleFile_get_hash_def
      simpleFile_get_file_name_def split: option.splits)

lemma files_registered_entity: "files (registered_entity h k p) = files_of h k @ [p]"
  by (simp add: registered_entity_def files_of_def add_file_name_def new_observedEntity_def
      simpleFile_get_file_name_def split: option.splits)

lemma hash_registered_entity:
  "list_all (entity_ok H fs) (hash_dict h) \<Longrightarrow> hash (registered_entity h k p) = k"
  by (auto simp add: registered_entity_def add_file_name_def new_observedEntity_def
      simpleFile_get_hash_def list_all_iff entity_ok_def split: option.splits
      dest!: map_of_SomeD)

lemma set_update_subset: "set (AList.update k v al) \<subseteq> insert (k, v) (set al)"
  by (induction al) auto

lemma entity_ok_registered:
  assumes "list_all (entity_ok H fs) (hash_dict h)" and "calculate_hash H fs p = Inr k"
  shows "entity_ok H fs (k, registered_entity h k p)"
proof -
  have "list_all (\<lambda>q. calculate_hash H fs q = Inr k) (files_of h k)"
  proof (cases "map_of (hash_dict h) k")
    case None
    then show ?thesis by (simp add: files_of_def)
  next
    case (Some e)
    then have "(k, e) \<in> set (hash_dict h)" by (rule map_of_SomeD)
    with assms(1) have "entity_ok H fs (k, e)" by (simp add: list_all_iff)
    with Some show ?thesis by (simp add: files_of_def entity_ok_def)
  qed
  then show ?thesis
    using assms by (simp add: entity_ok_def hash_registered_entity files_registered_entity)
qed

lemma add_file_inv:
  assumes "registry_inv H fs h"
  shows "registry_inv H fs (state (add_file H fs h p))"
proof (cases "calculate_hash H fs p")
  case (Inl x)
  then show ?thesis using assms by (simp add: add_file_Raise)
next
  case (Inr k)
  let ?d = "AList.update k (registered_entity h k p) (hash_dict h)"
  have ok: "entity_ok H fs (k, registered_entity h k p)"
    using assms Inr by (simp add: registry_inv_def entity_ok_registered)
  have "list_all (entity_ok H fs) ?d"
    using assms ok set_update_subset [of k "registered_entity h k p" "hash_dict h"]
    by (auto simp add: registry_inv_def list_all_iff)
  moreover have "distinct (map fst ?d)"
    using assms by (simp add: registry_inv_def distinct_update)
  ultimately show ?thesis
    using Inr by (simp add: add_file_Normal registry_inv_def)
qed

lemma grows_refl: "distinct (map fst (hash_dict h)) \<Longrightarrow> grows h h"
  by (auto simp add: grows_def kept_def list_all_iff)

lemma add_file_grows:
  assumes "registry_inv H fs h"
  shows "grows h (state (add_file H fs h p))"
proof (cases "calculate_hash H fs p")
  case (Inl x)
  then show ?thesis using assms by (simp add: add_file_Raise grows_refl registry_inv_def)
next
  case (Inr k)
  let ?v = "registered_entity h k p"
  let ?d = "AList.update k ?v (hash_dict h)"
  have dist: "distinct (map fst (hash_dict h))"
    using assms by (simp add: registry_inv_def)
  have keys: "prefix (map fst (hash_dict h)) (map fst ?d)"
    by (simp add: update_keys)
  have "kept ?d (k', e)" if mem: "(k', e) \<in> set (hash_dict h)" for k' e
  proof -
    from mem dist have look: "map_of (hash_dict h) k' = Some e" by simp
    show ?thesis
    proof (cases "k' = k")
      case True
      with look have "files_of h k = files e" "?v = add_file_name e p"
        by (simp_all add: files_of_def registered_entity_def)
      with True show ?thesis
        by (simp add: kept_def update_conv' add_file_name_def)
    next
      case False
      with look show ?thesis by (simp add: kept_def update_conv')
    qed
  qed
  then have "list_all (kept ?d) (hash_dict h)"
    by (auto simp add: list_all_iff)
  with keys Inr show ?thesis by (simp add: add_file_Normal grows_def)
qed

lemma kept_trans:
  assumes "kept d' (k, e)" and "list_all (kept d'') d'"
  shows "kept d'' (k, e)"
proof -
  from assms(1) obtain e' where look: "map_of d' k = Some e'"
    and h: "hash e' = hash e" and f: "prefix (files e) (files e')"
    by (auto simp add: kept_def split: option.splits)
  from look have "(k, e') \<in> set d'" by (rule map_of_SomeD)
  with assms(2) have "kept d'' (k, e')" by (simp add: list_all_iff)
  with h f show ?thesis
    by (auto simp add: kept_def split: option.splits intro: prefix_order.trans)
qed

lemma grows_trans:
  assumes "grows h h'" and "grows h' h''"
  shows "grows h h''"
proof -
  have "list_all (kept (hash_dict h'')) (hash_dict h)"
    unfolding list_all_iff
  proof
    fix item assume mem: "item \<in> set (hash_dict h)"
    obtain k e where item: "item = (k, e)" by (cases item)
    from mem assms(1) have "kept (hash_dict h') (k, e)"
      by (simp add: grows_def list_all_iff item)
    with assms(2) show "kept (hash_dict h'') item"
      unfolding item by (auto simp add: grows_def intro: kept_trans)
  qed
  with assms show ?thesis
    by (auto simp add: grows_def intro: prefix_order.trans)
qed

lemma files_of_update:
  "files_of (h\<lparr>hash_dict := AList.update k v (hash_dict h)\<rparr>) k' =
     (if k' = k then files v else files_of h k')"
  by (simp add: files_of_def update_conv')

lemma files_of_add_file:
  "calculate_hash H fs p = Inr k \<Longrightarrow>
   files_of (state (add_file H fs h p)) k' = files_of h k' @ (if k' = k then [p] else [])"
  by (simp add: add_file_Normal files_of_update files_registered_entity)

lemma keys_add_file:
  "calculate_hash H fs p = Inr k \<Longrightarrow>
   set (map fst (hash_dict (state (add_file H fs h p)))) = insert k (set (map fst (hash_dict h)))"
  by (auto simp add: add_file_Normal update_keys)

subsection \<open>The scan\<close>

lemma scan_files_inv:
  "registry_inv H fs h \<Longrightarrow> registry_inv H fs (state (scan_files H fs h paths))"
proof (induction paths arbitrary: h)
  case Nil
  then show ?case by simp
next
  case (Cons p paths)
  from Cons.prems have step: "registry_inv H fs (state (add_file H fs h p))"
    by (rule add_file_inv)
  show ?case
  proof (cases "add_file H fs h p")
    case (Normal h1)
    with step Cons.IH [of h1] Cons.IH [of h] Cons.prems show ?thesis by simp
  next
    case (Raise x h1)
    with step Cons.IH [of h] Cons.prems show ?thesis by simp
  qed
qed

lemma scan_files_grows:
  "registry_inv H fs h \<Longrightarrow> grows h (state (scan_files H fs h paths))"
proof (induction paths arbitrary: h)
  case Nil
  then show ?case by (simp add: grows_refl registry_inv_def)
next
  case (Cons p paths)
  from Cons.prems have inv1: "registry_inv H fs (state (add_file H fs h p))"
    by (rule add_file_inv)
  from Cons.prems have g1: "grows h (state (add_file H fs h p))"
    by (rule add_file_grows)
  show ?case
  proof (cases "add_file H fs h p")
    case (Normal h1)
    with inv1 have "grows h1 (state (scan_files H fs h1 paths))"
      by (simp add: Cons.IH)
    with g1 Normal have "grows h (state (scan_files H fs h1 paths))"
      by (auto intro: grows_trans)
    with Normal Cons.IH [OF Cons.prems] show ?thesis by simp
  next
    case (Raise x h1)
    with g1 Cons.IH [OF Cons.prems] show ?thesis by simp
  qed
qed

lemma isfile_cases:
  "isfile fs p \<longleftrightarrow> (\<exists>c. fs p = Some (RegularFile c)) \<or> fs p = Some Unreadable"
  by (auto simp add: isfile_def split: option.splits fsnode.splits)

lemma calculate_hash_RegularFile:
  "fs p = Some (RegularFile c) \<Longrightarrow> calculate_hash H fs p = Inr (hash_bytes H c)"
  by (simp add: calculate_hash_def open_rb_def hash_bytes_def)

lemma calculate_hash_Unreadable:
  "fs p = Some Unreadable \<Longrightarrow> calculate_hash H fs p = Inl PermissionError"
  by (simp add: calculate_hash_def open_rb_def)

lemma scan_files_returns:
  "returns (scan_files H fs h paths) \<longleftrightarrow> Some Unreadable \<notin> fs ` set paths"
proof (induction paths arbitrary: h)
  case Nil
  then show ?case by simp
next
  case (Cons p paths)
  show ?case
  proof (cases "fs p")
    case None
    then have "\<not> isfile fs p" by (simp add: isfile_def)
    with None Cons.IH [of h] show ?thesis by auto
  next
    case (Some node)
    show ?thesis
    proof (cases node)
      case (RegularFile c)
      with Some have "isfile fs p" by (simp add: isfile_def)
      moreover from Some RegularFile have "calculate_hash H fs p = Inr (hash_bytes H c)"
        by (simp add: calculate_hash_RegularFile)
      ultimately show ?thesis
        using Some RegularFile Cons.IH by (auto simp add: add_file_Normal)
    next
      case Unreadable
      with Some have "isfile fs p" by (simp add: isfile_def)
      moreover from Some Unreadable have "calculate_hash H fs p = Inl PermissionError"
        by (simp add: calculate_hash_Unreadable)
      ultimately show ?thesis
        using Some Unreadable by (auto simp add: add_file_Raise image_iff)
    next
      case Directory
      with Some have "\<not> isfile fs p" by (simp add: isfile_def)
      with Some Directory Cons.IH [of h] show ?thesis by auto
    qed
  qed
qed

lemma scan_files_files_of:
  "scan_files H fs h paths = Normal h' \<Longrightarrow>
   files_of h' k = files_of h k @ filter (\<lambda>p. calculate_hash H fs p = Inr k) paths"
proof (induction paths arbitrary: h)
  case Nil
  then show ?case by simp
next
  case (Cons p paths)
  show ?case
  proof (cases "isfile fs p")
    case False
    then have "calculate_hash H fs p \<noteq> Inr k"
      by (auto simp add: isfile_def calculate_hash_def open_rb_def
          split: option.splits fsnode.splits)
    with False Cons show ?thesis by simp
  next
    case True
    with Cons.prems obtain h1 where a: "add_file H fs h p = Normal h1"
      and s: "scan_files H fs h1 paths = Normal h'"
      by (auto split: outcome.splits)
    from a obtain k1 where k1: "calculate_hash H fs p = Inr k1"
      by (cases "calculate_hash H fs p") (auto simp add: add_file_Raise)
    from files_of_add_file [OF k1, of h k] a
    have "files_of h1 k = files_of h k @ (if k = k1 then [p] else [])" by simp
    with Cons.IH [OF s] k1 show ?thesis by auto
  qed
qed

lemma scan_files_keys:
  "scan_files H fs h paths = Normal h' \<Longrightarrow>
   set (map fst (hash_dict h')) = set (map fst (hash_dict h)) \<union> hash_bytes H ` set (contents fs paths)"
proof (induction paths arbitrary: h)
  case Nil
  then show ?case by simp
next
  case (Cons p paths)
  show ?case
  proof (cases "isfile fs p")
    case False
    then have "contents fs (p # paths) = contents fs paths"
      by (auto simp add: isfile_def split: option.splits fsnode.splits)
    with False Cons show ?thesis by simp
  next
    case True
    with Cons.prems obtain h1 where a: "add_file H fs h p = Normal h1"
      and s: "scan_files H fs h1 paths = Normal h'"
      by (auto split: outcome.splits)
    from a have "calculate_hash H fs p \<noteq> Inl PermissionError"
      by (auto simp add: add_file_Raise)
    with True obtain c where c: "fs p = Some (RegularFile c)"
      by (auto simp add: isfile_cases calculate_hash_Unreadable)
    then have k: "calculate_hash H fs p = Inr (hash_bytes H c)"
      by (rule calculate_hash_RegularFile)
    from keys_add_file [OF k, of h] a
    have "set (map fst (hash_dict h1)) = insert (hash_bytes H c) (set (map fst (hash_dict h)))"
      by simp
    with Cons.IH [OF s] c show ?thesis by simp
  qed
qed

lemma registry_inv_new: "registry_inv H fs new_entityHandler"
  by (simp add: registry_inv_def new_entityHandler_def)

lemma count_list_distinct:
  "distinct xs \<Longrightarrow> count_list xs x = (if x \<in> set xs then 1 else 0)"
  by (induction xs) auto

subsection \<open>The polling loop\<close>

lemma add_virustotal_result_keeps:
  "files (state (add_virustotal_result e r)) = files e \<and>
   hash (state (add_virustotal_result e r)) = hash e"
  by (simp add: add_virustotal_result_def Let_def split: sum.splits)

lemma state_map_outcome: "state (map_outcome f r) = f (state r)"
  by (cases r) simp_all

lemma returns_map_outcome: "returns (map_outcome f r) = returns r"
  by (cases r) simp_all

lemma poll_entities_same:
  "list_all2 same_entity d (state (fst (poll_entities vt w d)))"
proof (induction d)
  case Nil
  then show ?case by simp
next
  case (Cons item d)
  obtain k e where item: "item = (k, e)" by (cases item)
  have refl: "list_all2 same_entity d d"
    by (simp add: list_all2_same same_entity_def)
  have head: "same_entity (k, e) (k, state (add_virustotal_result e (vt k)))"
    by (simp add: same_entity_def add_virustotal_result_keeps)
  show ?case
    unfolding item using Cons.IH refl head
    by (cases "add_virustotal_result e (vt k)")
      (auto simp add: state_map_outcome split: prod.splits)
qed

lemma same_entity_keys: "list_all2 same_entity d d' \<Longrightarrow> map fst d' = map fst d"
  by (induction rule: list_all2_induct) (simp_all add: same_entity_def)

lemma same_entity_ok:
  "list_all2 same_entity d d' \<Longrightarrow> list_all (entity_ok H fs) d \<Longrightarrow> list_all (entity_ok H fs) d'"
  by (induction rule: list_all2_induct)
    (auto simp add: same_entity_def entity_ok_def split: prod.splits)

lemma kept_Cons:
  "kept d' item \<Longrightarrow> fst item \<noteq> k \<Longrightarrow> kept ((k, e) # d') item"
  by (cases item) (simp add: kept_def)

lemma same_entity_kept:
  "list_all2 same_entity d d' \<Longrightarrow> distinct (map fst d) \<Longrightarrow> list_all (kept d') d"
proof (induction rule: list_all2_induct)
  case Nil
  then show ?case by simp
next
  case (Cons item d item' d')
  obtain k e where item: "item = (k, e)" by (cases item)
  obtain k' e' where item': "item' = (k', e')" by (cases item')
  from Cons.hyps item item' have eq: "k' = k" "files e' = files e" "hash e' = hash e"
    by (simp_all add: same_entity_def)
  from Cons have tail: "list_all (kept d') d" by simp
  have "list_all (kept ((k, e') # d')) d"
    unfolding list_all_iff
  proof
    fix x assume x: "x \<in> set d"
    with Cons.prems item have "fst x \<noteq> k" by auto
    moreover from tail x have "kept d' x" by (simp add: list_all_iff)
    ultimately show "kept ((k, e') # d') x" by (rule kept_Cons [rotated])
  qed
  moreover have "kept ((k, e') # d') (k, e)"
    using eq by (simp add: kept_def)
  ultimately show ?case by (simp add: item item' eq)
qed

lemma retrieve_state:
  "hash_dict (state (fst (retrieve_virustotal_results vt g h))) =
     state (fst (poll_entities vt (if count_entities g \<le> 4 then 0 else 15) (hash_dict h)))"
  by (simp add: retrieve_virustotal_results_def get_entities_def Let_def state_map_outcome
      split: prod.splits)

lemma retrieve_inv:
  assumes "registry_inv H fs h"
  shows "registry_inv H fs (state (fst (retrieve_virustotal_results vt g h)))"
    and "grows h (state (fst (retrieve_virustotal_results vt g h)))"
proof -
  let ?d' = "state (fst (poll_entities vt (if count_entities g \<le> 4 then 0 else 15) (hash_dict h)))"
  have same: "list_all2 same_entity (hash_dict h) ?d'"
    by (rule poll_entities_same)
  have keys: "map fst ?d' = map fst (hash_dict h)"
    using same by (rule same_entity_keys)
  from assms have "list_all (entity_ok H fs) ?d'"
    using same by (auto simp add: registry_inv_def intro: same_entity_ok)
  with keys assms show "registry_inv H fs (state (fst (retrieve_virustotal_results vt g h)))"
    by (simp add: registry_inv_def retrieve_state)
  from assms have "list_all (kept ?d') (hash_dict h)"
    using same by (auto simp add: registry_inv_def intro: same_entity_kept)
  with keys show "grows h (state (fst (retrieve_virustotal_results vt g h)))"
    by (simp add: grows_def retrieve_state)
qed

lemma retrieve_poll:
  "retrieve_virustotal_results vt g h =
     (map_outcome (\<lambda>d. h\<lparr>hash_dict := d\<rparr>)
        (fst (poll_entities vt (waiting_time_of g) (hash_dict h))),
      snd (poll_entities vt (waiting_time_of g) (hash_dict h)))"
  by (simp add: retrieve_virustotal_results_def waiting_time_of_def get_entities_def Let_def
      split: prod.splits)

lemma poll_entities_returns_trace:
  "returns (fst (poll_entities vt w d)) \<Longrightarrow>
   snd (poll_entities vt w d) = concat (map (\<lambda>item. [Query (fst item), Sleep w]) d)"
proof (induction d)
  case Nil
  then show ?case by simp
next
  case (Cons item d)
  obtain k e where item: "item = (k, e)" by (cases item)
  from Cons.prems show ?case
    unfolding item
    by (cases "add_virustotal_result e (vt k)")
      (simp_all add: returns_map_outcome Cons.IH case_prod_beta)
qed

lemma poll_entities_queries_prefix:
  "prefix (queries (snd (poll_entities vt w d))) (map fst d)"
proof (induction d)
  case Nil
  then show ?case by simp
next
  case (Cons item d)
  obtain k e where item: "item = (k, e)" by (cases item)
  from Cons.IH show ?case
    unfolding item
    by (cases "add_virustotal_result e (vt k)") (simp_all add: case_prod_beta)
qed

lemma poll_entities_sleeps:
  "list_all (\<lambda>n. n = w) (sleeps (snd (poll_entities vt w d)))"
proof (induction d)
  case Nil
  then show ?case by simp
next
  case (Cons item d)
  obtain k e where item: "item = (k, e)" by (cases item)
  from Cons.IH show ?case
    unfolding item
    by (cases "add_virustotal_result e (vt k)") (simp_all add: case_prod_beta)
qed

lemma queries_pairs: "queries (concat (map (\<lambda>item. [Query (fst item), Sleep w]) d)) = map fst d"
  by (induction d) simp_all

lemma sleeps_pairs:
  "sleeps (concat (map (\<lambda>item. [Query (fst item), Sleep w]) d)) = replicate (length d) w"
  by (induction d) simp_all

subsection \<open>The sample directory, evaluated\<close>

lemma read_blocks_Nil: "read_blocks H h [] = h"
  by (simp add: read_blocks.simps)

lemma read_blocks_Cons:
  "read_blocks H h (b # bs) =
     read_blocks H (sha256_update H h (take 4096 (b # bs))) (drop 4096 (b # bs))"
  by (subst read_blocks.simps) simp

lemmas scan_eval =
  isfile_def add_file_def new_simpleFile_def calculate_hash_def open_rb_def
  read_blocks_Nil read_blocks_Cons toy_hashlib_def sample_fs_def
  simpleFile_get_hash_def simpleFile_get_file_name_def new_observedEntity_def
  add_file_name_def new_entityHandler_def

lemma sample_scan:
  "scan_files toy_hashlib sample_fs new_entityHandler sample_paths =
     Normal \<lparr>hash_dict =
       [(''MZ1'', (fresh_entity ''top/a'' ''MZ1'')\<lparr>files := [''top/a'', ''top/sub/b'']\<rparr>),
        (''hello'', fresh_entity ''top/c'' ''hello''),
        (''4'', fresh_entity ''top/d'' ''4''),
        (''5'', fresh_entity ''top/e'' ''5''),
        (''6'', fresh_entity ''top/f'' ''6'')]\<rparr>"
  by (simp add: sample_paths_def scan_eval fresh_entity_def)

lemma sample_registry_eq:
  "sample_registry = \<lparr>hash_dict =
       [(''MZ1'', (fresh_entity ''top/a'' ''MZ1'')\<lparr>files := [''top/a'', ''top/sub/b'']\<rparr>),
        (''hello'', fresh_entity ''top/c'' ''hello''),
        (''4'', fresh_entity ''top/d'' ''4''),
        (''5'', fresh_entity ''top/e'' ''5''),
        (''6'', fresh_entity ''top/f'' ''6'')]\<rparr>"
  by (simp add: sample_registry_def sample_scan)

lemma add_unknown_report:
  "add_virustotal_result e unknown_report = Normal (e\<lparr>vt_result := unknown_report\<rparr>)"
  by (simp add: add_virustotal_result_def json_loads_dumps_def py_eq_int_def unknown_report_def)

lemma sample_contents:
  "contents sample_fs sample_paths = [''MZ1'', ''MZ1'', ''hello'', ''4'', ''5'', ''6'']"
  by (simp add: sample_paths_def sample_fs_def)

lemma toy_hash_bytes: "length c < 4096 \<Longrightarrow> hash_bytes toy_hashlib c = c"
  by (cases c) (simp_all add: hash_bytes_def toy_hashlib_def read_blocks_Nil read_blocks_Cons)

lemmas poll_eval =
  retrieve_virustotal_results_def count_entities_def get_entities_def
  unknown_to_virustotal_def add_unknown_report

subsection \<open>The registry\<close>

text \<open>
  C7. The empty registry satisfies the invariant, and \<^verbatim>\<open>add_file\<close>, the scan of a list of
  paths and \<^verbatim>\<open>retrieve_virustotal_results\<close> preserve it, whether they return or raise: keys
  stay distinct and every entity lists only files whose digest is the entity's digest. Each
  of these operations keeps every entity under its key with the same digest, its list of
  file names extended at the end only, and keeps the keys in their order. On a single
  entity, \<^verbatim>\<open>add_file_name\<close> appends at the end and \<^verbatim>\<open>add_virustotal_result\<close> leaves file names
  and digest alone.
\<close>

theorem registry_invariant:
  "registry_inv H fs new_entityHandler \<and>
   (registry_inv H fs h \<longrightarrow>
      registry_inv H fs (state (add_file H fs h file)) \<and>
      grows h (state (add_file H fs h file)) \<and>
      registry_inv H fs (state (scan_files H fs h paths)) \<and>
      grows h (state (scan_files H fs h paths)) \<and>
      registry_inv H fs (state (fst (retrieve_virustotal_results vt g h))) \<and>
      grows h (state (fst (retrieve_virustotal_results vt g h)))) \<and>
   prefix (files e) (files (add_file_name e file_name)) \<and>
   hash (add_file_name e file_name) = hash e \<and>
   files (state (add_virustotal_result e result)) = files e \<and>
   hash (state (add_virustotal_result e result)) = hash e"
  by (simp add: registry_inv_new add_file_inv add_file_grows scan_files_inv scan_files_grows
      retrieve_inv add_virustotal_result_keeps add_file_name_def)

theorem registry_invariant_witness:
  "registry_inv toy_hashlib sample_fs one_file_registry \<and>
   registry_inv toy_hashlib sample_fs
     (state (add_file toy_hashlib sample_fs one_file_registry ''top/sub/b'')) \<and>
   grows one_file_registry (state (add_file toy_hashlib sample_fs one_file_registry ''top/sub/b'')) \<and>
   files_of (state (add_file toy_hashlib sample_fs one_file_registry ''top/sub/b'')) ''MZ1'' =
     [''top/a'', ''top/sub/b''] \<and>
   registry_inv toy_hashlib sample_fs
     (state (fst (retrieve_virustotal_results unknown_to_virustotal one_file_registry
        one_file_registry))) \<and>
   grows one_file_registry
     (state (fst (retrieve_virustotal_results unknown_to_virustotal one_file_registry
        one_file_registry)))"
proof -
  have i: "registry_inv toy_hashlib sample_fs one_file_registry"
    by (simp add: registry_inv_def entity_ok_def one_file_registry_def fresh_entity_def scan_eval)
  have f: "files_of (state (add_file toy_hashlib sample_fs one_file_registry ''top/sub/b'')) ''MZ1'' =
     [''top/a'', ''top/sub/b'']"
    by (simp add: files_of_def one_file_registry_def fresh_entity_def scan_eval)
  from registry_invariant [of toy_hashlib sample_fs one_file_registry "''top/sub/b''" "[]"
      unknown_to_virustotal one_file_registry] i f
  show ?thesis by blast
qed

text \<open>
  C10. Registering the same readable path twice in a row succeeds both times; the path is
  then listed twice more at the end of the file names of its digest, the registry holds
  exactly one entity for that digest, and the second registration adds no entity.
\<close>

theorem duplicate_path_listed_twice:
  assumes "fs p = Some (RegularFile c)" and "registry_inv H fs h"
  shows "\<exists>h1 h2. add_file H fs h p = Normal h1 \<and> add_file H fs h1 p = Normal h2 \<and>
     files_of h2 (hash_bytes H c) = files_of h (hash_bytes H c) @ [p, p] \<and>
     count_list (map fst (get_entities h2)) (hash_bytes H c) = 1 \<and>
     count_entities h2 = count_entities h1"
proof -
  let ?k = "hash_bytes H c"
  from assms(1) have k: "calculate_hash H fs p = Inr ?k"
    by (rule calculate_hash_RegularFile)
  let ?h1 = "state (add_file H fs h p)"
  let ?h2 = "state (add_file H fs ?h1 p)"
  have n1: "add_file H fs h p = Normal ?h1" and n2: "add_file H fs ?h1 p = Normal ?h2"
    by (simp_all add: add_file_Normal [OF k])
  have f: "files_of ?h2 ?k = files_of h ?k @ [p, p]"
    by (simp add: files_of_add_file [OF k])
  have in1: "?k \<in> set (map fst (hash_dict ?h1))"
    by (simp only: keys_add_file [OF k]) simp
  then have keys: "map fst (hash_dict ?h2) = map fst (hash_dict ?h1)"
    by (simp add: add_file_Normal [OF k] update_keys)
  from assms(2) have "registry_inv H fs ?h1" by (rule add_file_inv)
  then have "distinct (map fst (hash_dict ?h1))" by (simp add: registry_inv_def)
  with in1 have one: "count_list (map fst (hash_dict ?h2)) ?k = 1"
    by (simp only: keys count_list_distinct) simp
  from keys have len: "count_entities ?h2 = count_entities ?h1"
    by (metis count_entities_def length_map)
  from n1 n2 f one len show ?thesis
    unfolding get_entities_def by blast
qed

theorem duplicate_path_listed_twice_witness:
  "sample_fs ''top/a'' = Some (RegularFile ''MZ1'') \<and>
   registry_inv toy_hashlib sample_fs new_entityHandler \<and>
   files_of (state (add_file toy_hashlib sample_fs
       (state (add_file toy_hashlib sample_fs new_entityHandler ''top/a'')) ''top/a''))
     (hash_bytes toy_hashlib ''MZ1'') = [''top/a'', ''top/a''] \<and>
   count_list (map fst (get_entities (state (add_file toy_hashlib sample_fs
       (state (add_file toy_hashlib sample_fs new_entityHandler ''top/a'')) ''top/a''))))
     (hash_bytes toy_hashlib ''MZ1'') = 1"
proof -
  have a: "sample_fs ''top/a'' = Some (RegularFile ''MZ1'')"
    by (simp add: sample_fs_def)
  have b: "registry_inv toy_hashlib sample_fs new_entityHandler"
    by (simp add: registry_inv_def new_entityHandler_def)
  have e: "files_of new_entityHandler (hash_bytes toy_hashlib ''MZ1'') = []"
    by (simp add: files_of_def new_entityHandler_def)
  from duplicate_path_listed_twice [OF a b] e
  have "files_of (state (add_file toy_hashlib sample_fs
       (state (add_file toy_hashlib sample_fs new_entityHandler ''top/a'')) ''top/a''))
     (hash_bytes toy_hashlib ''MZ1'') = [''top/a'', ''top/a''] \<and>
   count_list (map fst (get_entities (state (add_file toy_hashlib sample_fs
       (state (add_file toy_hashlib sample_fs new_entityHandler ''top/a'')) ''top/a''))))
     (hash_bytes toy_hashlib ''MZ1'') = 1"
    by auto
  with a b show ?thesis by blast
qed

text \<open>
  C1. When every regular file among the paths can be read, the scan of an empty registry
  returns; its keys are distinct; any two paths with the same content are listed by the one
  entity filed under the digest of that content; and the number of entities is the number
  of distinct digests, which is the number of distinct contents when no two of the contents
  share a digest.
\<close>

theorem dedup_by_content:
  assumes "Some Unreadable \<notin> fs ` set paths"
  shows "\<exists>h. scan_files H fs new_entityHandler paths = Normal h \<and>
     distinct (map fst (get_entities h)) \<and>
     (\<forall>p q c. p \<in> set paths \<and> q \<in> set paths \<and>
        fs p = Some (RegularFile c) \<and> fs q = Some (RegularFile c) \<longrightarrow>
        (\<exists>e. map_of (get_entities h) (hash_bytes H c) = Some e \<and>
           p \<in> set (get_file_names e) \<and> q \<in> set (get_file_names e))) \<and>
     count_entities h = card (hash_bytes H ` set (contents fs paths)) \<and>
     (inj_on (hash_bytes H) (set (contents fs paths)) \<longrightarrow>
        count_entities h = card (set (contents fs paths)))"
proof -
  from assms have "returns (scan_files H fs new_entityHandler paths)"
    by (simp add: scan_files_returns)
  then obtain h where h: "scan_files H fs new_entityHandler paths = Normal h"
    by (cases "scan_files H fs new_entityHandler paths") auto
  from h scan_files_inv [OF registry_inv_new, of H fs paths]
  have dist: "distinct (map fst (hash_dict h))" by (simp add: registry_inv_def)
  from scan_files_keys [OF h]
  have keys: "set (map fst (hash_dict h)) = hash_bytes H ` set (contents fs paths)"
    by (simp add: new_entityHandler_def)
  have count: "count_entities h = card (hash_bytes H ` set (contents fs paths))"
    using dist keys by (metis count_entities_def distinct_card length_map)
  have same: "\<exists>e. map_of (hash_dict h) (hash_bytes H c) = Some e \<and> p \<in> set (files e) \<and> q \<in> set (files e)"
    if "p \<in> set paths" "q \<in> set paths" "fs p = Some (RegularFile c)" "fs q = Some (RegularFile c)"
    for p q c
  proof -
    let ?k = "hash_bytes H c"
    from that have "calculate_hash H fs p = Inr ?k" "calculate_hash H fs q = Inr ?k"
      by (simp_all add: calculate_hash_RegularFile)
    with that scan_files_files_of [OF h, of ?k]
    have mem: "p \<in> set (files_of h ?k)" "q \<in> set (files_of h ?k)"
      by (simp_all add: files_of_def new_entityHandler_def)
    then show ?thesis
      by (cases "map_of (hash_dict h) ?k") (auto simp add: files_of_def)
  qed
  have inj: "count_entities h = card (set (contents fs paths))"
    if "inj_on (hash_bytes H) (set (contents fs paths))"
    using that count by (simp add: card_image)
  from h dist same count inj show ?thesis
    unfolding get_entities_def get_file_names_def by blast
qed

theorem dedup_by_content_witness:
  "Some Unreadable \<notin> sample_fs ` set sample_paths \<and>
   inj_on (hash_bytes toy_hashlib) (set (contents sample_fs sample_paths)) \<and>
   length (contents sample_fs sample_paths) = 6 \<and>
   card (set (contents sample_fs sample_paths)) = 5 \<and>
   count_entities (state (scan_files toy_hashlib sample_fs new_entityHandler sample_paths)) = 5 \<and>
   files_of (state (scan_files toy_hashlib sample_fs new_entityHandler sample_paths))
     (hash_bytes toy_hashlib ''MZ1'') = [''top/a'', ''top/sub/b'']"
proof -
  have r: "Some Unreadable \<notin> sample_fs ` set sample_paths"
    by (simp add: sample_paths_def sample_fs_def)
  have i: "inj_on (hash_bytes toy_hashlib) (set (contents sample_fs sample_paths))"
    by (simp add: sample_contents toy_hash_bytes)
  have n: "length (contents sample_fs sample_paths) = 6"
    by (simp add: sample_contents)
  have k: "card (set (contents sample_fs sample_paths)) = 5"
    by (simp add: sample_contents)
  from dedup_by_content [OF r, of toy_hashlib] i k
  have c: "count_entities (state (scan_files toy_hashlib sample_fs new_entityHandler sample_paths)) = 5"
    by auto
  have f: "files_of (state (scan_files toy_hashlib sample_fs new_entityHandler sample_paths))
     (hash_bytes toy_hashlib ''MZ1'') = [''top/a'', ''top/sub/b'']"
    by (simp add: sample_scan files_of_def toy_hash_bytes)
  from r i n k c f show ?thesis by blast
qed

text \<open>
  C8. For a registry built by the scan: no digest is ever queried twice and no other
  digest is queried; when the polling loop runs to its end, the digests queried are the keys
  of the registry in order, each digest of a scanned file exactly once, however many files
  share it.
\<close>

theorem one_query_per_digest:
  assumes "scan_files H fs new_entityHandler paths = Normal h"
  shows "(returns (fst (retrieve_virustotal_results vt h h)) \<longrightarrow>
            queries (snd (retrieve_virustotal_results vt h h)) = map fst (get_entities h) \<and>
            length (queries (snd (retrieve_virustotal_results vt h h))) =
              card (hash_bytes H ` set (contents fs paths)) \<and>
            count_list (queries (snd (retrieve_virustotal_results vt h h))) k =
              (if k \<in> hash_bytes H ` set (contents fs paths) then 1 else 0)) \<and>
         count_list (queries (snd (retrieve_virustotal_results vt h h))) k \<le>
           (if k \<in> hash_bytes H ` set (contents fs paths) then 1 else 0)"
proof -
  let ?qs = "queries (snd (retrieve_virustotal_results vt h h))"
  let ?keys = "map fst (hash_dict h)"
  from assms scan_files_inv [OF registry_inv_new, of H fs paths]
  have dist: "distinct ?keys" by (simp add: registry_inv_def)
  from scan_files_keys [OF assms]
  have keys: "set ?keys = hash_bytes H ` set (contents fs paths)"
    by (simp add: new_entityHandler_def)
  have pre: "prefix ?qs ?keys"
    by (simp add: retrieve_poll poll_entities_queries_prefix)
  then obtain zs where zs: "?keys = ?qs @ zs" by (auto simp add: prefix_def)
  with dist have dq: "distinct ?qs" by simp
  from zs keys have sub: "set ?qs \<subseteq> hash_bytes H ` set (contents fs paths)"
    by (metis Un_upper1 set_append)
  have le: "count_list ?qs k \<le> (if k \<in> hash_bytes H ` set (contents fs paths) then 1 else 0)"
    using sub by (auto simp add: count_list_distinct [OF dq])
  have full: "?qs = ?keys" if "returns (fst (retrieve_virustotal_results vt h h))"
  proof -
    from that have "returns (fst (poll_entities vt (waiting_time_of h) (hash_dict h)))"
      by (simp add: retrieve_poll returns_map_outcome)
    then show ?thesis
      by (simp add: retrieve_poll poll_entities_returns_trace queries_pairs)
  qed
  have len: "length ?keys = card (hash_bytes H ` set (contents fs paths))"
    using dist keys by (metis distinct_card)
  have cnt: "count_list ?keys k = (if k \<in> hash_bytes H ` set (contents fs paths) then 1 else 0)"
    using keys by (simp add: count_list_distinct [OF dist])
  from le full len cnt show ?thesis by (simp add: get_entities_def)
qed

theorem one_query_per_digest_witness:
  "scan_files toy_hashlib sample_fs new_entityHandler sample_paths = Normal sample_registry \<and>
   returns (fst (retrieve_virustotal_results unknown_to_virustotal sample_registry sample_registry)) \<and>
   length (contents sample_fs sample_paths) = 6 \<and>
   queries (snd (retrieve_virustotal_results unknown_to_virustotal sample_registry sample_registry)) =
     map fst (get_entities sample_registry) \<and>
   count_list (queries (snd (retrieve_virustotal_results unknown_to_virustotal sample_registry
     sample_registry))) ''MZ1'' = 1"
proof -
  have s: "scan_files toy_hashlib sample_fs new_entityHandler sample_paths = Normal sample_registry"
    by (simp add: sample_registry_eq sample_scan)
  have r: "returns (fst (retrieve_virustotal_results unknown_to_virustotal sample_registry sample_registry))"
    by (simp add: sample_registry_eq poll_eval)
  have n: "length (contents sample_fs sample_paths) = 6"
    by (simp add: sample_contents)
  have k: "''MZ1'' \<in> hash_bytes toy_hashlib ` set (contents sample_fs sample_paths)"
    by (simp add: sample_contents toy_hash_bytes)
  from one_query_per_digest [OF s, of unknown_to_virustotal "''MZ1''"] r
  have q: "queries (snd (retrieve_virustotal_results unknown_to_virustotal sample_registry sample_registry)) =
     map fst (get_entities sample_registry)"
    and c: "count_list (queries (snd (retrieve_virustotal_results unknown_to_virustotal sample_registry
     sample_registry))) ''MZ1'' =
       (if ''MZ1'' \<in> hash_bytes toy_hashlib ` set (contents sample_fs sample_paths) then 1 else 0)"
    by blast+
  from c k have "count_list (queries (snd (retrieve_virustotal_results unknown_to_virustotal sample_registry
     sample_registry))) ''MZ1'' = 1"
    by (simp only: if_True)
  with s r n q show ?thesis by blast
qed

text \<open>
  C6, as the script behaves. Every pause lasts 0 seconds when the registry has at most 4
  entities and 15 seconds otherwise. When the polling loop runs to its end, each query is
  followed by a pause, the last one too: there are as many pauses as entities.
\<close>

theorem pause_after_every_query:
  "list_all (\<lambda>n. n = (if count_entities h \<le> 4 then 0 else 15))
     (sleeps (snd (retrieve_virustotal_results vt h h))) \<and>
   (returns (fst (retrieve_virustotal_results vt h h)) \<longrightarrow>
      snd (retrieve_virustotal_results vt h h) =
        concat (map (\<lambda>item. [Query (fst item), Sleep (if count_entities h \<le> 4 then 0 else 15)])
          (get_entities h)) \<and>
      sleeps (snd (retrieve_virustotal_results vt h h)) =
        replicate (count_entities h) (if count_entities h \<le> 4 then 0 else 15))"
proof -
  let ?w = "if count_entities h \<le> 4 then 0 else 15 :: nat"
  have w: "waiting_time_of h = ?w" by (simp add: waiting_time_of_def)
  have tr: "snd (retrieve_virustotal_results vt h h) = snd (poll_entities vt ?w (hash_dict h))"
    by (simp add: retrieve_poll w)
  have ret: "returns (fst (retrieve_virustotal_results vt h h)) =
      returns (fst (poll_entities vt ?w (hash_dict h)))"
    by (simp add: retrieve_poll w returns_map_outcome)
  have a: "list_all (\<lambda>n. n = ?w) (sleeps (snd (retrieve_virustotal_results vt h h)))"
    unfolding tr by (rule poll_entities_sleeps)
  have b: "snd (retrieve_virustotal_results vt h h) =
      concat (map (\<lambda>item. [Query (fst item), Sleep ?w]) (get_entities h))"
    if "returns (fst (retrieve_virustotal_results vt h h))"
    using that unfolding tr ret get_entities_def by (rule poll_entities_returns_trace)
  have c: "sleeps (snd (retrieve_virustotal_results vt h h)) = replicate (count_entities h) ?w"
    if "returns (fst (retrieve_virustotal_results vt h h))"
    using b [OF that] by (simp only: sleeps_pairs get_entities_def count_entities_def)
  from a b c show ?thesis by blast
qed

theorem pause_after_every_query_witness:
  "returns (fst (retrieve_virustotal_results unknown_to_virustotal sample_registry sample_registry)) \<and>
   count_entities sample_registry = 5 \<and>
   sleeps (snd (retrieve_virustotal_results unknown_to_virustotal sample_registry sample_registry)) =
     replicate 5 15 \<and>
   returns (fst (retrieve_virustotal_results unknown_to_virustotal one_file_registry one_file_registry)) \<and>
   count_entities one_file_registry = 1 \<and>
   sleeps (snd (retrieve_virustotal_results unknown_to_virustotal one_file_registry one_file_registry)) =
     replicate 1 0"
proof -
  have r5: "returns (fst (retrieve_virustotal_results unknown_to_virustotal sample_registry sample_registry))"
    by (simp add: sample_registry_eq poll_eval)
  have c5: "count_entities sample_registry = 5"
    by (simp add: sample_registry_eq count_entities_def)
  have r1: "returns (fst (retrieve_virustotal_results unknown_to_virustotal one_file_registry one_file_registry))"
    by (simp add: one_file_registry_def poll_eval)
  have c1: "count_entities one_file_registry = 1"
    by (simp add: one_file_registry_def count_entities_def)
  from pause_after_every_query [of sample_registry unknown_to_virustotal] r5
  have "sleeps (snd (retrieve_virustotal_results unknown_to_virustotal sample_registry sample_registry)) =
     replicate (count_entities sample_registry) (if count_entities sample_registry \<le> 4 then 0 else 15)"
    by blast
  then have s5: "sleeps (snd (retrieve_virustotal_results unknown_to_virustotal sample_registry sample_registry)) =
     replicate 5 15"
    by (simp add: c5)
  from pause_after_every_query [of one_file_registry unknown_to_virustotal] r1
  have "sleeps (snd (retrieve_virustotal_results unknown_to_virustotal one_file_registry one_file_registry)) =
     replicate (count_entities one_file_registry) (if count_entities one_file_registry \<le> 4 then 0 else 15)"
    by blast
  then have s1: "sleeps (snd (retrieve_virustotal_results unknown_to_virustotal one_file_registry one_file_registry)) =
     replicate 1 0"
    by (simp add: c1)
  from r5 c5 s5 r1 c1 s1 show ?thesis by blast
qed

text \<open>
  The claim C6 as written fails on the sample directory: five entities, five queries, and
  five pauses of 15 seconds rather than four; the trace ends with a pause.
\<close>

theorem pause_after_last_query_counterexample:
  "count_entities sample_registry = 5 \<and>
   snd (retrieve_virustotal_results unknown_to_virustotal sample_registry sample_registry) =
     [Query ''MZ1'', Sleep 15, Query ''hello'', Sleep 15, Query ''4'', Sleep 15,
      Query ''5'', Sleep 15, Query ''6'', Sleep 15] \<and>
   length (sleeps (snd (retrieve_virustotal_results unknown_to_virustotal sample_registry
     sample_registry))) \<noteq> 4"
  by (simp add: sample_registry_eq poll_eval)

end
